theory Spec2Isabelle
  imports Complex_Main "HOL-Library.Log_Nat"
begin

section \<open>The circuit breaker of \<^verbatim>\<open>circuit_breaker.py\<close>\<close>

text \<open>
  A shallow embedding of the class \<^verbatim>\<open>CircuitBreaker\<close>. The object is a record, each method a
  function that takes the object (\<open>self\<close>). Python numbers are embedded into the rationals,
  an \<^verbatim>\<open>int\<close> exactly. Where the code turns an \<^verbatim>\<open>int\<close> into a \<^verbatim>\<open>float\<close>, in the product
  \<^verbatim>\<open>timeout_minutes * 0.1\<close> of line 88 and in the difference of line 122, the conversion and
  the product are those of IEEE binary64: rounded to the nearest double, ties to even, with
  \<^verbatim>\<open>OverflowError\<close> for an integer beyond the doubles. The timestamps of \<^verbatim>\<open>time.time()\<close>,
  the sums and differences with them, and a power with a negative exponent (which needs a
  negative \<^verbatim>\<open>max_exponential_retries\<close>) are the exact numbers they approximate.

  The two ambient effects of the module, the clock \<^verbatim>\<open>time.time()\<close> and the generator behind
  \<^verbatim>\<open>random.randint\<close>, and whatever the wrapped operation does, act on a world \<open>'w\<close> that is
  passed through every method: a method returns the world it leaves behind.
\<close>

subsection \<open>Data\<close>

datatype CircuitBreakerState = CLOSED | OPEN | HALF_OPEN

record CircuitBreaker =
  failure_threshold :: int
  base_interval_minutes :: int
  fixed_interval_retries :: int
  max_exponential_retries :: int
  jitter_enabled :: bool
  failure_count :: int
  consecutive_circuit_breaks :: int
  last_failure_time :: "rat option"
  state :: CircuitBreakerState

text \<open>
  The collaborators: \<open>time_time\<close> reads the clock, \<open>random_randint a b\<close> draws an integer.
  Python's \<^verbatim>\<open>randint(a, b)\<close> returns a value in \<open>[a, b]\<close> when \<open>a \<le> b\<close>; that is the
  predicate \<open>randint_in_range\<close>, assumed where a theorem needs it. It raises for \<open>a > b\<close>,
  which the breaker never asks for: its range is \<open>[-r, r]\<close> with \<open>r \<ge> 1\<close>.
\<close>

record 'w env =
  time_time :: "'w \<Rightarrow> rat \<times> 'w"
  random_randint :: "int \<Rightarrow> int \<Rightarrow> 'w \<Rightarrow> int \<times> 'w"

definition randint_in_range :: "'w env \<Rightarrow> bool" where
  "randint_in_range env \<longleftrightarrow>
     (\<forall>a b w. a \<le> b \<longrightarrow> a \<le> fst (random_randint env a b w) \<and> fst (random_randint env a b w) \<le> b)"

text \<open>
  What one invocation of the wrapped operation does: it returns a value, raises an instance
  of \<^verbatim>\<open>Exception\<close> (what \<^verbatim>\<open>except Exception\<close> catches), or raises some other
  \<^verbatim>\<open>BaseException\<close> (\<^verbatim>\<open>KeyboardInterrupt\<close>, \<^verbatim>\<open>SystemExit\<close>), which the handler does not catch.
\<close>

datatype ('a, 'e) outcome = Return 'a | Raise_Exception 'e | Raise_BaseException 'e

text \<open>
  What the breaker's own code raises: \<^verbatim>\<open>ZeroDivisionError\<close> from \<^verbatim>\<open>0 ** e\<close> with
  \<open>e < 0\<close>, \<^verbatim>\<open>OverflowError\<close> from an \<^verbatim>\<open>int\<close> too large to convert to \<^verbatim>\<open>float\<close>, and the
  \<^verbatim>\<open>Exception\<close> of line 44, whose message interpolates one number between fixed texts
  (\<open>Circuit_open\<close> carries that number). What \<open>call\<close> raises is one of these or the
  operation's own exception, the same object.
\<close>

datatype breaker_error = ZeroDivisionError | OverflowError | Circuit_open rat

datatype 'e raised =
    Breaker_error breaker_error
  | Func_Exception 'e
  | Func_BaseException 'e

subsection \<open>Python arithmetic\<close>

text \<open>\<^verbatim>\<open>int(x)\<close> truncates towards zero.\<close>

definition py_int :: "rat \<Rightarrow> int" where
  "py_int x = (if 0 \<le> x then \<lfloor>x\<rfloor> else \<lceil>x\<rceil>)"

text \<open>
  \<^verbatim>\<open>b ** e\<close> on integers: an integer for \<open>e \<ge> 0\<close> (with \<open>0 ** 0 = 1\<close>), the float
  \<open>1 / b ** (-e)\<close> for \<open>e < 0\<close>, and \<^verbatim>\<open>ZeroDivisionError\<close> for \<open>b = 0\<close>, \<open>e < 0\<close>.
\<close>

definition py_pow :: "int \<Rightarrow> int \<Rightarrow> breaker_error + rat" where
  "py_pow b e =
     (if 0 \<le> e then Inr (of_int (b ^ nat e))
      else if b = 0 then Inl ZeroDivisionError
      else Inr (1 / of_int (b ^ nat (- e))))"

text \<open>
  Binary64. For \<open>x > 0\<close>, \<open>binade x\<close> is the exponent \<open>e\<close> with \<open>2 ^ e \<le> x < 2 ^ (e + 1)\<close>;
  the doubles around \<open>x\<close> are the multiples of \<open>2 ^ (e - 52)\<close>, or of \<open>2 ^ (- 1074)\<close> in the
  subnormal range, and \<open>round_to_double\<close> takes the nearest one, the even one at a tie.
\<close>

definition binade :: "rat \<Rightarrow> int" where
  "binade x = (if 1 \<le> x then bitlen \<lfloor>x\<rfloor> - 1 else - bitlen (\<lceil>1 / x\<rceil> - 1))"

definition round_half_even :: "rat \<Rightarrow> int" where
  "round_half_even m =
     (let f = \<lfloor>m\<rfloor>; r = m - of_int f
      in if r < 1 / 2 then f else if 1 / 2 < r then f + 1 else if even f then f else f + 1)"

definition round_to_double :: "rat \<Rightarrow> rat" where
  "round_to_double x =
     (if x = 0 then 0
      else let a = \<bar>x\<bar>;
               q = 2 powi (max (binade a) (- 1022) - 52)
           in sgn x * (q * of_int (round_half_even (a / q))))"

text \<open>
  \<^verbatim>\<open>float(x)\<close>, the conversion Python applies to an \<^verbatim>\<open>int\<close> operand next to a \<^verbatim>\<open>float\<close> one:
  it raises \<^verbatim>\<open>OverflowError\<close> when the nearest double would be \<open>2 ^ 1024\<close> or beyond.
\<close>

definition py_float :: "rat \<Rightarrow> breaker_error + rat" where
  "py_float x =
     (let f = round_to_double x in if 2 ^ 1024 \<le> \<bar>f\<bar> then Inl OverflowError else Inr f)"

text \<open>The literal \<^verbatim>\<open>0.1\<close>: the double nearest to one tenth.\<close>

definition float_tenth :: rat where
  "float_tenth = 3602879701896397 / 36028797018963968"

text \<open>\<^verbatim>\<open>x * y\<close> for a number \<open>x\<close> and a \<^verbatim>\<open>float\<close> \<open>y\<close>.\<close>

definition times_float :: "rat \<Rightarrow> rat \<Rightarrow> breaker_error + rat" where
  "times_float x y =
     (case py_float x of Inl e \<Rightarrow> Inl e | Inr f \<Rightarrow> Inr (round_to_double (f * y)))"

subsection \<open>Construction\<close>

definition init :: "int \<Rightarrow> int \<Rightarrow> int \<Rightarrow> int \<Rightarrow> bool \<Rightarrow> CircuitBreaker" where
  "init failure_threshold' base_interval_minutes' fixed_interval_retries'
        max_exponential_retries' jitter_enabled' =
     \<lparr> failure_threshold = failure_threshold',
       base_interval_minutes = base_interval_minutes',
       fixed_interval_retries = fixed_interval_retries',
       max_exponential_retries = max_exponential_retries',
       jitter_enabled = jitter_enabled',
       failure_count = 0,
       consecutive_circuit_breaks = 0,
       last_failure_time = None,
       state = CLOSED \<rparr>"

subsection \<open>The recovery timeout\<close>

text \<open>
  Lines 69 to 84 of \<^verbatim>\<open>_get_current_recovery_timeout_minutes\<close>: the timeout of the phase,
  before jitter.
\<close>

definition phase_timeout_minutes :: "CircuitBreaker \<Rightarrow> breaker_error + rat" where
  "phase_timeout_minutes self =
     (if consecutive_circuit_breaks self \<le> fixed_interval_retries self
      then Inr (of_int (base_interval_minutes self))
      else
        let exponential_attempt = consecutive_circuit_breaks self - fixed_interval_retries self;
            exponential_attempt =
              (if exponential_attempt > max_exponential_retries self
               then max_exponential_retries self else exponential_attempt)
        in case py_pow (base_interval_minutes self) exponential_attempt of
             Inl x \<Rightarrow> Inl x
           | Inr p \<Rightarrow> Inr (of_int (base_interval_minutes self) * p))"

text \<open>
  The whole method: the early return of line 66, the phase timeout, then the jitter of
  lines 87 to 90 (the product by \<^verbatim>\<open>0.1\<close> in binary64, truncated by \<^verbatim>\<open>int\<close>, then one draw of
  the generator).
\<close>

definition get_current_recovery_timeout_minutes ::
  "'w env \<Rightarrow> CircuitBreaker \<Rightarrow> 'w \<Rightarrow> (breaker_error + rat) \<times> 'w" where
  "get_current_recovery_timeout_minutes env self w =
     (if consecutive_circuit_breaks self = 0
      then (Inr (of_int (base_interval_minutes self)), w)
      else
        case phase_timeout_minutes self of
          Inl x \<Rightarrow> (Inl x, w)
        | Inr timeout_minutes \<Rightarrow>
            if jitter_enabled self then
              (case times_float timeout_minutes float_tenth of
                 Inl x \<Rightarrow> (Inl x, w)
               | Inr product \<Rightarrow>
                   let jitter_range = max 1 (py_int product);
                       (jitter, w') = random_randint env (- jitter_range) jitter_range w
                   in (Inr (max 1 (timeout_minutes + of_int jitter)), w'))
            else (Inr timeout_minutes, w))"

subsection \<open>The reset check\<close>

definition should_attempt_reset ::
  "'w env \<Rightarrow> CircuitBreaker \<Rightarrow> 'w \<Rightarrow> (breaker_error + bool) \<times> 'w" where
  "should_attempt_reset env self w =
     (case last_failure_time self of
        None \<Rightarrow> (Inr True, w)
      | Some lft \<Rightarrow>
          (case get_current_recovery_timeout_minutes env self w of
             (Inl x, w1) \<Rightarrow> (Inl x, w1)
           | (Inr current_timeout_minutes, w1) \<Rightarrow>
               let current_timeout_seconds = current_timeout_minutes * 60;
                   (now, w2) = time_time env w1
               in (Inr (now - lft \<ge> current_timeout_seconds), w2)))"

subsection \<open>The handlers\<close>

definition on_success :: "CircuitBreaker \<Rightarrow> CircuitBreaker" where
  "on_success self =
     self\<lparr> failure_count := 0, consecutive_circuit_breaks := 0, state := CLOSED \<rparr>"

definition on_failure :: "'w env \<Rightarrow> CircuitBreaker \<Rightarrow> 'w \<Rightarrow> CircuitBreaker \<times> 'w" where
  "on_failure env self w =
     (let self1 = self\<lparr> failure_count := failure_count self + 1 \<rparr>;
          (now, w1) = time_time env w;
          self2 = self1\<lparr> last_failure_time := Some now \<rparr>
      in if failure_count self2 \<ge> failure_threshold self2 then
           let self3 =
                 (if state self2 = HALF_OPEN
                  then self2\<lparr> consecutive_circuit_breaks := consecutive_circuit_breaks self2 + 1 \<rparr>
                  else self2\<lparr> consecutive_circuit_breaks := 1 \<rparr>)
           in (self3\<lparr> state := OPEN \<rparr>, w1)
         else (self2, w1))"

subsection \<open>The guarded call\<close>

text \<open>
  Lines 39 to 46: the gate. \<open>Inr ()\<close> lets the call through (with the breaker possibly moved
  to \<open>HALF_OPEN\<close>), \<open>Inl\<close> is what the gate raises.
\<close>

definition call_gate ::
  "'w env \<Rightarrow> CircuitBreaker \<Rightarrow> 'w \<Rightarrow> (breaker_error + unit) \<times> CircuitBreaker \<times> 'w" where
  "call_gate env self w =
     (if state self = OPEN then
        (case should_attempt_reset env self w of
           (Inl x, w1) \<Rightarrow> (Inl x, self, w1)
         | (Inr True, w1) \<Rightarrow> (Inr (), self\<lparr> state := HALF_OPEN \<rparr>, w1)
         | (Inr False, w1) \<Rightarrow>
             (case get_current_recovery_timeout_minutes env self w1 of
                (Inl x, w2) \<Rightarrow> (Inl x, self, w2)
              | (Inr current_timeout_minutes, w2) \<Rightarrow>
                  (Inl (Circuit_open current_timeout_minutes), self, w2)))
      else (Inr (), self, w))"

text \<open>Lines 48 to 54: the \<^verbatim>\<open>try\<close> block around the operation.\<close>

definition call_try ::
  "'w env \<Rightarrow> ('w \<Rightarrow> ('a, 'e) outcome \<times> 'w) \<Rightarrow> CircuitBreaker \<Rightarrow> 'w
     \<Rightarrow> ('e raised + 'a) \<times> CircuitBreaker \<times> 'w" where
  "call_try env func self w =
     (case func w of
        (Return result, w1) \<Rightarrow> (Inr result, on_success self, w1)
      | (Raise_Exception e, w1) \<Rightarrow>
          (let (self1, w2) = on_failure env self w1 in (Inl (Func_Exception e), self1, w2))
      | (Raise_BaseException e, w1) \<Rightarrow> (Inl (Func_BaseException e), self, w1))"

definition call ::
  "'w env \<Rightarrow> ('w \<Rightarrow> ('a, 'e) outcome \<times> 'w) \<Rightarrow> CircuitBreaker \<Rightarrow> 'w
     \<Rightarrow> ('e raised + 'a) \<times> CircuitBreaker \<times> 'w" where
  "call env func self w =
     (case call_gate env self w of
        (Inl x, self1, w1) \<Rightarrow> (Inl (Breaker_error x), self1, w1)
      | (Inr _, self1, w1) \<Rightarrow> call_try env func self1 w1)"

subsection \<open>The status snapshot\<close>

text \<open>
  The dictionary that \<^verbatim>\<open>get_status_info\<close> returns is a record, its nested \<^verbatim>\<open>config\<close> one too.
  The phase label is an f-string around two integers: the datatype keeps the two integers
  of each form.
\<close>

datatype retry_phase =
    Phase_closed
  | Phase_fixed_interval int int
  | Phase_exponential_interval int int

record status_config =
  config_base_interval_minutes :: int
  config_fixed_interval_retries :: int
  config_max_exponential_retries :: int
  config_jitter_enabled :: bool

record status_info =
  info_state :: string
  info_failure_count :: int
  info_consecutive_circuit_breaks :: int
  info_retry_phase :: retry_phase
  info_current_recovery_timeout_minutes :: rat
  info_time_until_retry_minutes :: "rat option"
  info_config :: status_config

fun state_value :: "CircuitBreakerState \<Rightarrow> string" where
  "state_value CLOSED = ''closed''"
| "state_value OPEN = ''open''"
| "state_value HALF_OPEN = ''half_open''"

text \<open>
  Line 119 tests the truth value of \<^verbatim>\<open>self.last_failure_time\<close>: \<^verbatim>\<open>None\<close> and the
  timestamp \<open>0\<close> are both false. In line 122 the timeout, an \<^verbatim>\<open>int\<close>, is converted to a
  \<^verbatim>\<open>float\<close> for the difference with \<^verbatim>\<open>elapsed_minutes\<close>.
\<close>

definition get_status_info ::
  "'w env \<Rightarrow> CircuitBreaker \<Rightarrow> 'w \<Rightarrow> (breaker_error + status_info) \<times> CircuitBreaker \<times> 'w" where
  "get_status_info env self w =
     (case get_current_recovery_timeout_minutes env self w of
        (Inl x, w1) \<Rightarrow> (Inl x, self, w1)
      | (Inr current_timeout_minutes, w1) \<Rightarrow>
          (case (case (if state self = OPEN then last_failure_time self else None) of
                   None \<Rightarrow> (Inr None, w1)
                 | Some lft \<Rightarrow>
                     if lft = 0 then (Inr None, w1)
                     else
                       let (now, w2) = time_time env w1;
                           elapsed_seconds = now - lft;
                           elapsed_minutes = elapsed_seconds / 60
                       in (case py_float current_timeout_minutes of
                             Inl x \<Rightarrow> (Inl x, w2)
                           | Inr timeout_float \<Rightarrow>
                               (Inr (Some (max 0 (timeout_float - elapsed_minutes))), w2))) of
             (Inl x, w2) \<Rightarrow> (Inl x, self, w2)
           | (Inr time_until_retry_minutes, w2) \<Rightarrow>
               let retry_phase =
                     (if consecutive_circuit_breaks self > 0 then
                        if consecutive_circuit_breaks self \<le> fixed_interval_retries self
                        then Phase_fixed_interval (consecutive_circuit_breaks self)
                               (fixed_interval_retries self)
                        else Phase_exponential_interval
                               (min (consecutive_circuit_breaks self - fixed_interval_retries self)
                                    (max_exponential_retries self))
                               (max_exponential_retries self)
                      else Phase_closed)
               in (Inr \<lparr> info_state = state_value (state self),
                         info_failure_count = failure_count self,
                         info_consecutive_circuit_breaks = consecutive_circuit_breaks self,
                         info_retry_phase = retry_phase,
                         info_current_recovery_timeout_minutes = current_timeout_minutes,
                         info_time_until_retry_minutes = time_until_retry_minutes,
                         info_config =
                           \<lparr> config_base_interval_minutes = base_interval_minutes self,
                             config_fixed_interval_retries = fixed_interval_retries self,
                             config_max_exponential_retries = max_exponential_retries self,
                             config_jitter_enabled = jitter_enabled self \<rparr> \<rparr>,
                   self, w2)))"

subsection \<open>Sequences of calls\<close>

text \<open>
  A caller that makes one \<open>call\<close> after the other, each with its own operation, and goes on
  whatever a call returns or raises.
\<close>

fun run_calls ::
  "'w env \<Rightarrow> ('w \<Rightarrow> ('a, 'e) outcome \<times> 'w) list \<Rightarrow> CircuitBreaker \<Rightarrow> 'w
     \<Rightarrow> CircuitBreaker \<times> 'w" where
  "run_calls env [] self w = (self, w)"
| "run_calls env (func # funcs) self w =
     (case call env func self w of (_, self1, w1) \<Rightarrow> run_calls env funcs self1 w1)"

text \<open>
  The results of the calls of such a run, in order, and what a result is: a failure of the
  operation (\<open>call\<close> raised the operation's \<^verbatim>\<open>Exception\<close>, so the operation was invoked
  and raised it at that call) or a success (\<open>call\<close> returned a value).
\<close>

fun call_results ::
  "'w env \<Rightarrow> ('w \<Rightarrow> ('a, 'e) outcome \<times> 'w) list \<Rightarrow> CircuitBreaker \<Rightarrow> 'w
     \<Rightarrow> ('e raised + 'a) list" where
  "call_results env [] self w = []"
| "call_results env (func # funcs) self w =
     (case call env func self w of (r, self1, w1) \<Rightarrow> r # call_results env funcs self1 w1)"

fun is_failure :: "'e raised + 'a \<Rightarrow> bool" where
  "is_failure (Inl (Func_Exception e)) = True"
| "is_failure _ = False"

fun is_success :: "'e raised + 'a \<Rightarrow> bool" where
  "is_success (Inr a) = True"
| "is_success _ = False"

subsection \<open>A concrete world\<close>

text \<open>
  For evaluating the methods: the world is the reading of the clock, \<open>randint a b\<close>
  returns the largest value it may, \<open>b\<close>, and the operations below take one second.
\<close>

definition clock_env :: "rat env" where
  "clock_env = \<lparr> time_time = (\<lambda>w. (w, w)), random_randint = (\<lambda>a b w. (b, w)) \<rparr>"

definition failing_func :: "rat \<Rightarrow> (string, string) outcome \<times> rat" where
  "failing_func w = (Raise_Exception ''Test failure'', w + 1)"

definition success_func :: "rat \<Rightarrow> (string, string) outcome \<times> rat" where
  "success_func w = (Return ''success'', w + 1)"

text \<open>
  The jitter magnitude in the words of the specification, \<open>ceil(timeout * 0.1)\<close> and at
  least 1, to compare with the \<open>jitter_range\<close> the method computes.
\<close>

definition spec_jitter_range :: "rat \<Rightarrow> int" where
  "spec_jitter_range t = max 1 \<lceil>t * (1 / 10)\<rceil>"

section \<open>Binary64 rounding\<close>

text \<open>
  The binade is the right one, rounding stays between the doubles on either side, integers
  below \<open>2 ^ 53\<close> are doubles, and for a non-negative integer below \<open>2 ^ 52\<close> the
  truncated product by \<^verbatim>\<open>0.1\<close> is the integer quotient by 10. Beyond that it need not be.
\<close>

lemma bitlen_pos: "0 < n \<Longrightarrow> 1 \<le> bitlen n"
  using bitlen_eq_zero_iff [of n] bitlen_nonneg [of n] by linarith

lemma binade_bounds:
  assumes "0 < x"
  shows "2 powi (binade x) \<le> x" and "x < 2 powi (binade x + 1)"
proof -
  have "2 powi (binade x) \<le> x \<and> x < 2 powi (binade x + 1)"
  proof (cases "1 \<le> x")
    case True
    define n where "n = \<lfloor>x\<rfloor>"
    have n: "0 < n" using True by (simp add: n_def)
    have b1: "1 \<le> bitlen n" using bitlen_pos [OF n] .
    have lo: "2 ^ nat (bitlen n - 1) \<le> n" and hi: "n < 2 ^ nat (bitlen n)"
      using bitlen_bounds [OF n] by auto
    have e: "binade x = bitlen n - 1" using True by (simp add: binade_def n_def)
    have "(2::rat) powi (bitlen n - 1) = of_int (2 ^ nat (bitlen n - 1))"
      using b1 by (simp add: power_int_nonneg_exp)
    also have "\<dots> \<le> of_int n" using lo by (simp only: of_int_le_iff)
    also have "\<dots> \<le> x" by (simp add: n_def)
    finally have l: "2 powi (binade x) \<le> x" by (simp add: e)
    have "n + 1 \<le> 2 ^ nat (bitlen n)" using hi by simp
    then have "(of_int (n + 1) :: rat) \<le> of_int (2 ^ nat (bitlen n))"
      by (simp only: of_int_le_iff)
    moreover have "x < of_int (n + 1)" using floor_correct [of x] by (simp add: n_def)
    moreover have "(2::rat) powi (bitlen n - 1 + 1) = of_int (2 ^ nat (bitlen n))"
      using b1 by (simp add: power_int_nonneg_exp)
    ultimately have "x < 2 powi (binade x + 1)" by (simp add: e)
    then show ?thesis using l by simp
  next
    case False
    define m where "m = \<lceil>1 / x\<rceil> - 1"
    have x1: "x < 1" using False by simp
    have "1 < 1 / x" using assms x1 by simp
    then have m: "0 < m" unfolding m_def by (simp add: less_ceiling_iff)
    have b1: "1 \<le> bitlen m" using bitlen_pos [OF m] .
    have lo: "2 ^ nat (bitlen m - 1) \<le> m" and hi: "m < 2 ^ nat (bitlen m)"
      using bitlen_bounds [OF m] by auto
    have e: "binade x = - bitlen m" using False by (simp add: binade_def m_def)
    have mlt: "(of_int m :: rat) < 1 / x"
      unfolding m_def using ceiling_correct [of "1 / x"] by simp
    have "1 / x \<le> of_int (m + 1)"
      unfolding m_def using ceiling_correct [of "1 / x"] by simp
    also have "\<dots> \<le> of_int (2 ^ nat (bitlen m))"
      using hi by (simp only: of_int_le_iff)
    also have "\<dots> = 2 powi (bitlen m)" using b1 by (simp add: power_int_nonneg_exp)
    finally have "1 / x \<le> 2 powi (bitlen m)" .
    then have l: "2 powi (- bitlen m) \<le> x"
      using assms by (simp add: power_int_minus field_simps)
    have "(2::rat) powi (bitlen m - 1) = of_int (2 ^ nat (bitlen m - 1))"
      using b1 by (simp add: power_int_nonneg_exp)
    also have "\<dots> \<le> of_int m" using lo by (simp only: of_int_le_iff)
    also have "\<dots> < 1 / x" by (rule mlt)
    finally have "2 powi (bitlen m - 1) < 1 / x" .
    then have "x * 2 powi (bitlen m - 1) < 1"
      using assms by (simp add: field_simps)
    then have "x < 1 / 2 powi (bitlen m - 1)"
      by (simp add: pos_less_divide_eq)
    also have "1 / 2 powi (bitlen m - 1) = (2::rat) powi (- (bitlen m - 1))"
      by (simp only: power_int_minus_divide)
    finally have "x < 2 powi (- bitlen m + 1)" by simp
    then show ?thesis using l by (simp add: e)
  qed
  then show "2 powi (binade x) \<le> x" and "x < 2 powi (binade x + 1)" by simp_all
qed

lemma powi2_less_imp: "(2::rat) powi a < 2 powi b \<Longrightarrow> a < b"
proof (rule ccontr)
  assume l: "(2::rat) powi a < 2 powi b" and "\<not> a < b"
  then have "b \<le> a" by simp
  then have "(2::rat) powi b \<le> 2 powi a" by (rule power_int_increasing) simp
  then show False using l by simp
qed

lemma binade_unique:
  assumes "2 powi e \<le> x" and "x < 2 powi (e + 1)"
  shows "binade x = e"
proof -
  have pos: "0 < x" using assms(1) zero_less_power_int [of "2::rat" e] by linarith
  have "(2::rat) powi e < 2 powi (binade x + 1)"
    using assms(1) binade_bounds(2) [OF pos] by linarith
  then have "e < binade x + 1" by (rule powi2_less_imp)
  moreover have "(2::rat) powi (binade x) < 2 powi (e + 1)"
    using assms(2) binade_bounds(1) [OF pos] by linarith
  then have "binade x < e + 1" by (rule powi2_less_imp)
  ultimately show ?thesis by simp
qed

lemma round_half_even_bounds: "\<lfloor>m\<rfloor> \<le> round_half_even m" "round_half_even m \<le> \<lceil>m\<rceil>"
proof -
  show "\<lfloor>m\<rfloor> \<le> round_half_even m" by (simp add: round_half_even_def Let_def)
  have "m \<noteq> of_int \<lfloor>m\<rfloor> \<Longrightarrow> \<lceil>m\<rceil> = \<lfloor>m\<rfloor> + 1"
    by (metis ceiling_altdef)
  moreover have "m = of_int \<lfloor>m\<rfloor> \<Longrightarrow> round_half_even m = \<lfloor>m\<rfloor>"
    by (simp add: round_half_even_def Let_def)
  ultimately show "round_half_even m \<le> \<lceil>m\<rceil>"
    by (cases "m = of_int \<lfloor>m\<rfloor>") (auto simp: round_half_even_def Let_def)
qed


lemma round_to_double_pos:
  "0 < x \<Longrightarrow> round_to_double x =
     2 powi (max (binade x) (- 1022) - 52) *
       of_int (round_half_even (x / 2 powi (max (binade x) (- 1022) - 52)))"
  by (simp add: round_to_double_def Let_def)

lemma binade_less:
  assumes "0 < x" and "x < 2 ^ m"
  shows "binade x < int m"
proof -
  have "(2::rat) powi (binade x) < 2 powi (int m)"
    using binade_bounds(1) [OF assms(1)] assms(2) by simp
  then show ?thesis by (rule powi2_less_imp)
qed

lemma round_to_double_between:
  fixes m s :: nat
  assumes "0 < x" and "x < 2 ^ m" and "m + s = 53"
    and "of_int A / 2 ^ s \<le> x" and "x \<le> of_int B / 2 ^ s"
  shows "of_int A / 2 ^ s \<le> round_to_double x" and "round_to_double x \<le> of_int B / 2 ^ s"
proof -
  define g where "g = max (binade x) (- 1022) - 52"
  define q :: rat where "q = 2 powi g"
  have gs: "g \<le> - int s"
    using binade_less [OF assms(1,2)] assms(3) by (simp add: g_def)
  define k where "k = nat (- g) - s"
  have split: "nat (- g) = s + k" using gs by (simp add: k_def)
  have qpos: "0 < q" by (simp add: q_def)
  have "q = 1 / 2 ^ nat (- g)"
    using gs power_int_minus_divide [of "2::rat" "- g"] by (simp add: q_def power_int_nonneg_exp)
  then have q: "q = 1 / (2 ^ s * 2 ^ k)" by (simp add: split power_add)
  have unit: "1 / 2 ^ s = q * 2 ^ k" by (simp add: q)
  have a: "of_int A / 2 ^ s = q * of_int (A * 2 ^ k)" for A
    using unit by (simp add: field_simps)
  have r: "round_to_double x = q * of_int (round_half_even (x / q))"
    using round_to_double_pos [OF assms(1)] by (simp add: q_def g_def)
  have "q * of_int (A * 2 ^ k) \<le> x" using assms(4) a by simp
  then have "of_int (A * 2 ^ k) \<le> x / q" using qpos by (simp add: pos_le_divide_eq mult.commute)
  then have "A * 2 ^ k \<le> \<lfloor>x / q\<rfloor>" by (simp only: le_floor_iff)
  then have "A * 2 ^ k \<le> round_half_even (x / q)"
    using round_half_even_bounds(1) [of "x / q"] by linarith
  then have "(of_int (A * 2 ^ k) :: rat) \<le> of_int (round_half_even (x / q))"
    by (simp only: of_int_le_iff)
  then have "q * of_int (A * 2 ^ k) \<le> q * of_int (round_half_even (x / q))"
    using qpos by (simp only: mult_le_cancel_left_pos)
  then show "of_int A / 2 ^ s \<le> round_to_double x" by (simp only: a r)
  have "x \<le> q * of_int (B * 2 ^ k)" using assms(5) a by simp
  then have "x / q \<le> of_int (B * 2 ^ k)" using qpos by (simp add: pos_divide_le_eq mult.commute)
  then have "\<lceil>x / q\<rceil> \<le> B * 2 ^ k" by (simp only: ceiling_le_iff)
  then have "round_half_even (x / q) \<le> B * 2 ^ k"
    using round_half_even_bounds(2) [of "x / q"] by linarith
  then have "(of_int (round_half_even (x / q)) :: rat) \<le> of_int (B * 2 ^ k)"
    by (simp only: of_int_le_iff)
  then have "q * of_int (round_half_even (x / q)) \<le> q * of_int (B * 2 ^ k)"
    using qpos by (simp only: mult_le_cancel_left_pos)
  then show "round_to_double x \<le> of_int B / 2 ^ s" by (simp only: a r)
qed

lemma round_to_double_of_int:
  assumes "0 \<le> n" and "n < 2 ^ 53"
  shows "round_to_double (of_int n) = of_int n"
proof (cases "n = 0")
  case True
  then show ?thesis by (simp add: round_to_double_def)
next
  case False
  then have pos: "(0::rat) < of_int n" using assms(1) by simp
  have "(of_int n :: rat) < of_int (2 ^ 53)" using assms(2) by (simp only: of_int_less_iff)
  then have lt: "(of_int n :: rat) < 2 ^ 53" by simp
  have "of_int n / 2 ^ 0 \<le> round_to_double (of_int n)"
    and "round_to_double (of_int n) \<le> of_int n / 2 ^ 0"
    using round_to_double_between [OF pos lt, of 0 n n] by simp_all
  then show ?thesis by simp
qed

lemma py_float_of_int:
  assumes "0 \<le> n" and "n < 2 ^ 53"
  shows "py_float (of_int n) = Inr (of_int n)"
proof -
  have "(of_int n :: rat) < of_int (2 ^ 53)" using assms(2) by (simp only: of_int_less_iff)
  then have "\<bar>of_int n :: rat\<bar> < 2 ^ 1024" using assms(1) by simp
  then show ?thesis by (simp add: py_float_def round_to_double_of_int [OF assms])
qed

lemma times_tenth_truncates:
  assumes "0 \<le> n" and "n < 2 ^ 52"
  shows "\<exists>p. times_float (of_int n) float_tenth = Inr p \<and> py_int p = n div 10"
proof -
  define x :: rat where "x = of_int n * float_tenth"
  define k where "k = n div 10"
  have n53: "n < 2 ^ 53" using assms(2) by simp
  have t: "times_float (of_int n) float_tenth = Inr (round_to_double x)"
    by (simp add: times_float_def py_float_of_int [OF assms(1) n53] x_def)
  have k0: "0 \<le> k" using assms(1) by (simp add: k_def)
  have nk: "10 * k \<le> n" "n \<le> 10 * k + 9" unfolding k_def by presburger+
  have "(of_int (10 * k) :: rat) \<le> of_int n" using nk(1) by (simp only: of_int_le_iff)
  then have nr1: "(10 * of_int k :: rat) \<le> of_int n" by simp
  have "(of_int n :: rat) \<le> of_int (10 * k + 9)" using nk(2) by (simp only: of_int_le_iff)
  then have nr2: "(of_int n :: rat) \<le> 10 * of_int k + 9" by simp
  have "(of_int n :: rat) < of_int (2 ^ 52)" using assms(2) by (simp only: of_int_less_iff)
  then have nr3: "(of_int n :: rat) < 4503599627370496" by simp
  have nr4: "(0::rat) \<le> of_int n" using assms(1) by simp
  note nr = nr1 nr2 nr3 nr4
  have lo: "of_int k \<le> x" and hi: "x \<le> of_int k + 15 / 16" and top: "x < 2 ^ 49"
    using nr unfolding x_def float_tenth_def by simp_all
  have "of_int k \<le> round_to_double x \<and> round_to_double x \<le> of_int k + 15 / 16"
  proof (cases "x = 0")
    case True
    then show ?thesis using lo hi by (simp add: round_to_double_def)
  next
    case False
    then have pos: "0 < x" using lo k0 by (simp add: order.strict_iff_order)
    have "of_int (16 * k) / 2 ^ 4 \<le> x" using lo by simp
    moreover have "x \<le> of_int (16 * k + 15) / 2 ^ 4" using hi by simp
    ultimately have "of_int (16 * k) / 2 ^ 4 \<le> round_to_double x"
      and "round_to_double x \<le> of_int (16 * k + 15) / 2 ^ 4"
      using round_to_double_between [OF pos top, of 4 "16 * k" "16 * k + 15"] by simp_all
    then show ?thesis by simp
  qed
  then have "0 \<le> round_to_double x" and "\<lfloor>round_to_double x\<rfloor> = k"
    using k0 by (simp_all add: floor_eq_iff)
  then have "py_int (round_to_double x) = k" by (simp add: py_int_def)
  then show ?thesis using t by (simp add: k_def)
qed


lemma round_half_even_near:
  assumes "of_int z - 1 / 2 < m" and "m < of_int z + 1 / 2"
  shows "round_half_even m = z"
proof (cases "of_int z \<le> m")
  case True
  then have f: "\<lfloor>m\<rfloor> = z" using assms(2) by (simp add: floor_eq_iff)
  show ?thesis using assms(2) by (simp add: round_half_even_def Let_def f)
next
  case False
  then have f: "\<lfloor>m\<rfloor> = z - 1" using assms(1) by (simp add: floor_eq_iff)
  show ?thesis using assms(1) by (simp add: round_half_even_def Let_def f)
qed

lemma round_to_double_eval:
  assumes "2 powi e \<le> x" and "x < 2 powi (e + 1)"
    and "q = 2 powi (max e (- 1022) - 52)"
    and "of_int z - 1 / 2 < x / q" and "x / q < of_int z + 1 / 2"
  shows "round_to_double x = q * of_int z"
proof -
  have pos: "0 < x" using assms(1) zero_less_power_int [of "2::rat" e] by linarith
  have "binade x = e" using assms(1,2) by (rule binade_unique)
  then show ?thesis
    using round_to_double_pos [OF pos] round_half_even_near [OF assms(4,5)] assms(3) by simp
qed

lemma float_of_large_int:
  "py_float 558545864083284007 = Inr 558545864083284032"
proof -
  have "round_to_double 558545864083284007 = 2 powi 6 * of_int 8727279126301313"
    by (rule round_to_double_eval [where e = 58]) simp_all
  then show ?thesis by (simp add: py_float_def)
qed

lemma times_tenth_large:
  "times_float 558545864083284007 float_tenth = Inr 55854586408328408"
proof -
  have "round_to_double (558545864083284032 * float_tenth) = 2 powi 3 * of_int 6981823301041051"
    unfolding float_tenth_def by (rule round_to_double_eval [where e = 55]) simp_all
  then show ?thesis by (simp add: times_float_def float_of_large_int)
qed

lemma float_overflow: "py_float (2 ^ 1024) = Inl OverflowError"
proof -
  have "round_to_double (2 ^ 1024) = 2 powi 972 * of_int (2 ^ 52)"
    by (rule round_to_double_eval [where e = 1024]) simp_all
  then show ?thesis by (simp add: py_float_def)
qed

section \<open>The recovery-timeout calculator\<close>

lemma py_pow_nonneg: "0 \<le> e \<Longrightarrow> py_pow b e = Inr (of_int b ^ nat e)"
  by (simp add: py_pow_def)

lemma phase_timeout_fixed:
  "consecutive_circuit_breaks self \<le> fixed_interval_retries self \<Longrightarrow>
   phase_timeout_minutes self = Inr (of_int (base_interval_minutes self))"
  by (simp add: phase_timeout_minutes_def)

lemma phase_timeout_exponential:
  assumes "fixed_interval_retries self < consecutive_circuit_breaks self"
    and "0 \<le> max_exponential_retries self"
  shows "phase_timeout_minutes self =
           Inr (of_int (base_interval_minutes self) *
                of_int (base_interval_minutes self) ^
                  nat (min (consecutive_circuit_breaks self - fixed_interval_retries self)
                           (max_exponential_retries self)))"
  using assms by (auto simp: phase_timeout_minutes_def Let_def py_pow_nonneg min_def)

lemma timeout_no_jitter:
  "\<not> jitter_enabled self \<Longrightarrow> phase_timeout_minutes self = Inr t \<Longrightarrow>
   get_current_recovery_timeout_minutes env self w
     = (Inr (if consecutive_circuit_breaks self = 0
             then of_int (base_interval_minutes self) else t), w)"
  by (simp add: get_current_recovery_timeout_minutes_def)

text \<open>
  C1. With jitter disabled, \<open>fixedIntervalRetries = F \<ge> 0\<close> and
  \<open>maxExponentialRetries = M \<ge> 0\<close> (the non-negative integers of the data model), the
  calculator returns \<open>B\<close> when \<open>k \<le> F\<close>, which includes \<open>k = 0\<close>, and
  \<open>B * B ^ min (k - F) M\<close> when \<open>k > F\<close>; it draws nothing from the generator.
\<close>

theorem timeout_phase_law:
  assumes "\<not> jitter_enabled self"
    and "0 \<le> fixed_interval_retries self"
    and "0 \<le> max_exponential_retries self"
  shows "get_current_recovery_timeout_minutes env self w =
           (Inr (if consecutive_circuit_breaks self \<le> fixed_interval_retries self
                 then of_int (base_interval_minutes self)
                 else of_int (base_interval_minutes self) *
                      of_int (base_interval_minutes self) ^
                        nat (min (consecutive_circuit_breaks self - fixed_interval_retries self)
                                 (max_exponential_retries self))), w)"
proof (cases "consecutive_circuit_breaks self \<le> fixed_interval_retries self")
  case True
  then show ?thesis
    using assms(1) timeout_no_jitter [OF assms(1) phase_timeout_fixed [OF True]] by simp
next
  case False
  then have gt: "fixed_interval_retries self < consecutive_circuit_breaks self" by simp
  then have "consecutive_circuit_breaks self \<noteq> 0" using assms(2) by simp
  then show ?thesis
    using False timeout_no_jitter [OF assms(1) phase_timeout_exponential [OF gt assms(3)]]
    by simp
qed

text \<open>The values the repository's tests expect, with jitter disabled.\<close>

lemma test_exponential_timeout_capping:
  "get_current_recovery_timeout_minutes clock_env
     ((init 5 5 1 2 False)\<lparr>consecutive_circuit_breaks := 10\<rparr>) 0 = (Inr (5 * 5 ^ 2), 0)"
  by (simp add: init_def get_current_recovery_timeout_minutes_def phase_timeout_minutes_def
        py_pow_def)

lemma test_zero_fixed_retries_goes_straight_to_exponential:
  "get_current_recovery_timeout_minutes clock_env
     ((init 5 5 0 3 False)\<lparr>consecutive_circuit_breaks := 1\<rparr>) 0 = (Inr 25, 0)"
  by (simp add: init_def get_current_recovery_timeout_minutes_def phase_timeout_minutes_def
        py_pow_def)

lemma test_zero_exponential_retries_stays_fixed:
  "get_current_recovery_timeout_minutes clock_env
     ((init 5 10 3 0 False)\<lparr>consecutive_circuit_breaks := 5\<rparr>) 0 = (Inr 10, 0)"
  by (simp add: init_def get_current_recovery_timeout_minutes_def phase_timeout_minutes_def
        py_pow_def)

theorem timeout_phase_law_witness:
  "\<not> jitter_enabled ((init 5 5 3 5 False)\<lparr>consecutive_circuit_breaks := 100\<rparr>)
   \<and> 0 \<le> fixed_interval_retries ((init 5 5 3 5 False)\<lparr>consecutive_circuit_breaks := 100\<rparr>)
   \<and> 0 \<le> max_exponential_retries ((init 5 5 3 5 False)\<lparr>consecutive_circuit_breaks := 100\<rparr>)
   \<and> get_current_recovery_timeout_minutes clock_env
        ((init 5 5 3 5 False)\<lparr>consecutive_circuit_breaks := 100\<rparr>) 0 = (Inr 15625, 0)"
  using timeout_phase_law [of "(init 5 5 3 5 False)\<lparr>consecutive_circuit_breaks := 100\<rparr>" clock_env 0]
  by (simp add: init_def)

subsection \<open>Jitter\<close>

lemma timeout_first_break:
  "consecutive_circuit_breaks self = 0 \<Longrightarrow>
   get_current_recovery_timeout_minutes env self w = (Inr (of_int (base_interval_minutes self)), w)"
  by (simp add: get_current_recovery_timeout_minutes_def)

lemma timeout_with_jitter:
  assumes "jitter_enabled self" and "consecutive_circuit_breaks self \<noteq> 0"
    and "phase_timeout_minutes self = Inr t"
    and "times_float t float_tenth = Inr product"
  shows "get_current_recovery_timeout_minutes env self w =
           (Inr (max 1 (t + of_int (fst (random_randint env
                   (- max 1 (py_int product)) (max 1 (py_int product)) w)))),
            snd (random_randint env (- max 1 (py_int product)) (max 1 (py_int product)) w))"
  using assms
  by (simp add: get_current_recovery_timeout_minutes_def Let_def split_beta)

lemma timeout_jitter_overflow:
  assumes "jitter_enabled self" and "consecutive_circuit_breaks self \<noteq> 0"
    and "phase_timeout_minutes self = Inr t"
    and "times_float t float_tenth = Inl x"
  shows "get_current_recovery_timeout_minutes env self w = (Inl x, w)"
  using assms by (simp add: get_current_recovery_timeout_minutes_def)

lemma randint_draw_bounds:
  assumes "randint_in_range env" and "1 \<le> r"
  shows "- r \<le> fst (random_randint env (- r) r w)" and "fst (random_randint env (- r) r w) \<le> r"
proof -
  have "- r \<le> r" using assms(2) by simp
  then have "- r \<le> fst (random_randint env (- r) r w) \<and> fst (random_randint env (- r) r w) \<le> r"
    using assms(1) unfolding randint_in_range_def by blast
  then show "- r \<le> fst (random_randint env (- r) r w)"
    and "fst (random_randint env (- r) r w) \<le> r" by simp_all
qed

lemma phase_timeout_zero_base:
  assumes "base_interval_minutes self = 0" and "0 \<le> max_exponential_retries self"
  shows "phase_timeout_minutes self = Inr 0"
proof (cases "consecutive_circuit_breaks self \<le> fixed_interval_retries self")
  case True
  then show ?thesis using assms(1) by (simp add: phase_timeout_fixed)
next
  case False
  then have "fixed_interval_retries self < consecutive_circuit_breaks self" by simp
  then show ?thesis
    using phase_timeout_exponential [OF _ assms(2)] assms(1) by simp
qed

lemma py_int_zero: "py_int 0 = 0"
  by (simp add: py_int_def)

lemma times_tenth_zero: "times_float 0 float_tenth = Inr 0"
  by (simp add: times_float_def py_float_def round_to_double_def)

text \<open>
  C4, as the code has it. With \<open>baseIntervalMinutes = 0\<close> and a non-negative
  \<open>maxExponentialRetries\<close>, the calculator returns 0 when jitter is disabled or
  \<open>consecutiveCircuitBreaks = 0\<close>; with jitter enabled and \<open>consecutiveCircuitBreaks \<noteq> 0\<close>
  the clamp of line 90 makes it return 1, whatever the generator draws.
\<close>

theorem zero_base_interval_timeout:
  assumes "base_interval_minutes self = 0" and "0 \<le> max_exponential_retries self"
  shows "(\<not> jitter_enabled self \<or> consecutive_circuit_breaks self = 0 \<longrightarrow>
            get_current_recovery_timeout_minutes env self w = (Inr 0, w))
       \<and> (jitter_enabled self \<and> consecutive_circuit_breaks self \<noteq> 0 \<and> randint_in_range env \<longrightarrow>
            fst (get_current_recovery_timeout_minutes env self w) = Inr 1)"
proof (intro conjI impI)
  assume "\<not> jitter_enabled self \<or> consecutive_circuit_breaks self = 0"
  then show "get_current_recovery_timeout_minutes env self w = (Inr 0, w)"
  proof
    assume nj: "\<not> jitter_enabled self"
    show ?thesis
      using timeout_no_jitter [OF nj phase_timeout_zero_base [OF assms], of env w] assms(1)
      by simp
  next
    assume "consecutive_circuit_breaks self = 0"
    then show ?thesis by (simp add: timeout_first_break assms(1))
  qed
next
  assume a: "jitter_enabled self \<and> consecutive_circuit_breaks self \<noteq> 0 \<and> randint_in_range env"
  let ?j = "fst (random_randint env (- 1) 1 w)"
  have "?j \<le> 1" using randint_draw_bounds(2) [of env 1 w] a by simp
  then have "(of_int ?j :: rat) \<le> 1" by simp
  then have "max 1 (0 + of_int ?j) = (1::rat)" by simp
  then show "fst (get_current_recovery_timeout_minutes env self w) = Inr 1"
    using timeout_with_jitter
            [OF _ _ phase_timeout_zero_base [OF assms] times_tenth_zero, of env w] a
    by (simp add: py_int_zero)
qed

lemma clock_env_in_range: "randint_in_range clock_env"
  by (simp add: randint_in_range_def clock_env_def)

theorem zero_base_interval_timeout_witness:
  "base_interval_minutes ((init 5 0 3 5 True)\<lparr>consecutive_circuit_breaks := 1\<rparr>) = 0
   \<and> 0 \<le> max_exponential_retries ((init 5 0 3 5 True)\<lparr>consecutive_circuit_breaks := 1\<rparr>)
   \<and> jitter_enabled ((init 5 0 3 5 True)\<lparr>consecutive_circuit_breaks := 1\<rparr>)
   \<and> consecutive_circuit_breaks ((init 5 0 3 5 True)\<lparr>consecutive_circuit_breaks := 1\<rparr>) \<noteq> 0
   \<and> fst (get_current_recovery_timeout_minutes clock_env
        ((init 5 0 3 5 True)\<lparr>consecutive_circuit_breaks := 1\<rparr>) 0) = Inr 1
   \<and> \<not> jitter_enabled ((init 5 0 3 5 False)\<lparr>consecutive_circuit_breaks := 1\<rparr>)
   \<and> get_current_recovery_timeout_minutes clock_env
        ((init 5 0 3 5 False)\<lparr>consecutive_circuit_breaks := 1\<rparr>) 0 = (Inr 0, 0)"
  using zero_base_interval_timeout
          [of "(init 5 0 3 5 True)\<lparr>consecutive_circuit_breaks := 1\<rparr>" clock_env 0]
        zero_base_interval_timeout
          [of "(init 5 0 3 5 False)\<lparr>consecutive_circuit_breaks := 1\<rparr>" clock_env 0]
        clock_env_in_range
  by (simp add: init_def)

text \<open>
  C4 as the specification states it fails: a breaker with \<open>baseIntervalMinutes = 0\<close>, jitter
  enabled and one circuit break gets the timeout 1, not 0.
\<close>

theorem zero_base_interval_counterexample:
  "base_interval_minutes ((init 5 0 3 5 True)\<lparr>consecutive_circuit_breaks := 1\<rparr>) = 0
   \<and> fst (get_current_recovery_timeout_minutes clock_env
        ((init 5 0 3 5 True)\<lparr>consecutive_circuit_breaks := 1\<rparr>) 0) \<noteq> Inr 0"
  by (simp add: init_def get_current_recovery_timeout_minutes_def phase_timeout_minutes_def
        times_tenth_zero py_int_def clock_env_def)

lemma phase_timeout_ignores_jitter_flag:
  "phase_timeout_minutes (self\<lparr>jitter_enabled := b\<rparr>) = phase_timeout_minutes self"
  by (simp add: phase_timeout_minutes_def Let_def split: sum.split)

lemma jitter_disabled_timeout_cases:
  assumes "fst (get_current_recovery_timeout_minutes env (self\<lparr>jitter_enabled := False\<rparr>) w) = Inr t"
  shows "(consecutive_circuit_breaks self = 0 \<and> t = of_int (base_interval_minutes self))
       \<or> (consecutive_circuit_breaks self \<noteq> 0 \<and> phase_timeout_minutes self = Inr t)"
  using assms
  by (auto simp: get_current_recovery_timeout_minutes_def phase_timeout_ignores_jitter_flag
           split: if_splits sum.splits)

lemma jitter_bounds_arith:
  fixes t r c j :: rat
  assumes "1 \<le> t" and "1 \<le> r" and "r \<le> c" and "- r \<le> j" and "j \<le> r"
  shows "max 1 (t - r) \<le> max 1 (t + j) \<and> max 1 (t + j) \<le> t + r \<and>
         max 1 (t - c) \<le> max 1 (t + j) \<and> max 1 (t + j) \<le> t + c"
  using assms by (simp add: max_def)

lemma quotient_le_spec_jitter_range:
  "max 1 (n div 10) \<le> spec_jitter_range (of_int n)"
proof -
  have "10 * (n div 10) \<le> n" by presburger
  then have "(of_int (10 * (n div 10)) :: rat) \<le> of_int n" by (simp only: of_int_le_iff)
  then have "(of_int (n div 10) :: rat) - 1 < of_int n * (1 / 10)" by simp
  then have "n div 10 \<le> \<lceil>(of_int n :: rat) * (1 / 10)\<rceil>" by (simp only: le_ceiling_iff)
  then show ?thesis by (simp add: spec_jitter_range_def)
qed

text \<open>
  C5, as the code has it. Let \<open>t\<close> be the jitter-disabled timeout of the same state. With
  jitter enabled: when \<open>consecutiveCircuitBreaks = 0\<close> the calculator returns \<open>t\<close>
  unperturbed and draws nothing. Otherwise it computes \<^verbatim>\<open>timeout_minutes * 0.1\<close> in binary64;
  if \<open>t\<close> is too large for a \<^verbatim>\<open>float\<close> it raises \<^verbatim>\<open>OverflowError\<close>; else, with
  \<open>r = max 1 (int product)\<close> (\<^verbatim>\<open>int\<close> truncates, it is not the ceiling), the perturbation
  \<open>j\<close> is the value of a single call \<^verbatim>\<open>random.randint(-r, r)\<close>, the method's only use of the
  generator (so \<open>j\<close> is distributed as that call's result is, uniformly on \<open>[-r, r]\<close>), and
  the result is \<open>max 1 (t + j)\<close>, within \<open>[max 1 (t - r), t + r]\<close> for \<open>t \<ge> 1\<close>. For an integer
  \<open>t\<close> with \<open>1 \<le> t < 2 ^ 52\<close> the truncated product is \<open>t div 10\<close>, and the result lies within
  the interval \<open>[max 1 (t - ceil (0.1 t)), t + ceil (0.1 t)]\<close> of the specification.
\<close>

theorem jitter_law:
  assumes "jitter_enabled self" and "randint_in_range env"
    and "fst (get_current_recovery_timeout_minutes env (self\<lparr>jitter_enabled := False\<rparr>) w) = Inr t"
  shows "(consecutive_circuit_breaks self = 0 \<longrightarrow>
            get_current_recovery_timeout_minutes env self w = (Inr t, w))
       \<and> (consecutive_circuit_breaks self \<noteq> 0 \<longrightarrow>
            (case times_float t float_tenth of
               Inl x \<Rightarrow> get_current_recovery_timeout_minutes env self w = (Inl x, w)
             | Inr product \<Rightarrow>
                 (let r = max 1 (py_int product);
                      j = fst (random_randint env (- r) r w)
                  in - r \<le> j \<and> j \<le> r \<and>
                     get_current_recovery_timeout_minutes env self w
                       = (Inr (max 1 (t + of_int j)), snd (random_randint env (- r) r w)) \<and>
                     (1 \<le> t \<longrightarrow> max 1 (t - of_int r) \<le> max 1 (t + of_int j) \<and>
                                max 1 (t + of_int j) \<le> t + of_int r))))
       \<and> (\<forall>n. t = of_int n \<and> 1 \<le> n \<and> n < 2 ^ 52 \<longrightarrow>
            (\<exists>product. times_float t float_tenth = Inr product \<and> py_int product = n div 10)
            \<and> (\<exists>v. fst (get_current_recovery_timeout_minutes env self w) = Inr v \<and>
                    max 1 (t - of_int (spec_jitter_range t)) \<le> v \<and>
                    v \<le> t + of_int (spec_jitter_range t)))"
proof -
  have draw: "- r \<le> fst (random_randint env (- r) r w) \<and> fst (random_randint env (- r) r w) \<le> r
              \<and> - (of_int r :: rat) \<le> of_int (fst (random_randint env (- r) r w))
              \<and> (of_int (fst (random_randint env (- r) r w)) :: rat) \<le> of_int r
              \<and> (1::rat) \<le> of_int r"
    if "r = max 1 (py_int product)" for r product
  proof -
    have r1: "1 \<le> r" using that by simp
    have lo: "- r \<le> fst (random_randint env (- r) r w)"
      and hi: "fst (random_randint env (- r) r w) \<le> r"
      using randint_draw_bounds [OF assms(2) r1] by blast+
    have "- (of_int r :: rat) \<le> of_int (fst (random_randint env (- r) r w))"
      using lo by (metis of_int_le_iff of_int_minus)
    moreover have "(of_int (fst (random_randint env (- r) r w)) :: rat) \<le> of_int r"
      using hi by (simp only: of_int_le_iff)
    moreover have "(1::rat) \<le> of_int r" using r1 by (simp only: of_int_1_le_iff)
    ultimately show ?thesis using lo hi by blast
  qed
  consider (first) "consecutive_circuit_breaks self = 0" "t = of_int (base_interval_minutes self)"
    | (later) "consecutive_circuit_breaks self \<noteq> 0" "phase_timeout_minutes self = Inr t"
    using jitter_disabled_timeout_cases [OF assms(3)] by blast
  then show ?thesis
  proof cases
    case first
    have res: "get_current_recovery_timeout_minutes env self w = (Inr t, w)"
      using first by (simp add: timeout_first_break)
    have "max 1 (t - of_int (spec_jitter_range t)) \<le> t \<and> t \<le> t + of_int (spec_jitter_range t)"
      if "1 \<le> t"
    proof -
      have "(1::rat) \<le> of_int (spec_jitter_range t)"
        by (simp add: spec_jitter_range_def)
      then show ?thesis using that by simp
    qed
    moreover have "\<exists>product. times_float (of_int n) float_tenth = Inr product
                     \<and> py_int product = n div 10" if "1 \<le> n" "n < 2 ^ 52" for n
      using times_tenth_truncates [of n] that by simp
    ultimately show ?thesis using first(1) res by auto
  next
    case later
    have second: "case times_float t float_tenth of
               Inl x \<Rightarrow> get_current_recovery_timeout_minutes env self w = (Inl x, w)
             | Inr product \<Rightarrow>
                 (let r = max 1 (py_int product);
                      j = fst (random_randint env (- r) r w)
                  in - r \<le> j \<and> j \<le> r \<and>
                     get_current_recovery_timeout_minutes env self w
                       = (Inr (max 1 (t + of_int j)), snd (random_randint env (- r) r w)) \<and>
                     (1 \<le> t \<longrightarrow> max 1 (t - of_int r) \<le> max 1 (t + of_int j) \<and>
                                max 1 (t + of_int j) \<le> t + of_int r))"
    proof (cases "times_float t float_tenth")
      case (Inl x)
      then show ?thesis using timeout_jitter_overflow [OF assms(1) later Inl] by simp
    next
      case (Inr product)
      define r where "r = max 1 (py_int product)"
      define j where "j = fst (random_randint env (- r) r w)"
      have d: "- r \<le> j" "j \<le> r" "- (of_int r :: rat) \<le> of_int j" "(of_int j :: rat) \<le> of_int r"
        "(1::rat) \<le> of_int r"
        using draw [OF r_def] by (simp_all add: j_def)
      have res: "get_current_recovery_timeout_minutes env self w
                   = (Inr (max 1 (t + of_int j)), snd (random_randint env (- r) r w))"
        using timeout_with_jitter [OF assms(1) later Inr, of env w] by (simp add: r_def j_def)
      have "1 \<le> t \<longrightarrow> max 1 (t - of_int r) \<le> max 1 (t + of_int j) \<and>
                      max 1 (t + of_int j) \<le> t + of_int r"
        using jitter_bounds_arith [OF _ d(5) order_refl d(3,4)] by blast
      then show ?thesis using Inr d(1,2) res unfolding r_def j_def by (simp add: Let_def)
    qed
    have third: "(\<exists>product. times_float t float_tenth = Inr product \<and> py_int product = n div 10)
            \<and> (\<exists>v. fst (get_current_recovery_timeout_minutes env self w) = Inr v \<and>
                    max 1 (t - of_int (spec_jitter_range t)) \<le> v \<and>
                    v \<le> t + of_int (spec_jitter_range t))"
      if n: "t = of_int n" "1 \<le> n" "n < 2 ^ 52" for n
    proof -
      obtain product where p: "times_float t float_tenth = Inr product"
        and q: "py_int product = n div 10"
        using times_tenth_truncates [of n] n by auto
      define r where "r = max 1 (py_int product)"
      define j where "j = fst (random_randint env (- r) r w)"
      have d: "- (of_int r :: rat) \<le> of_int j" "(of_int j :: rat) \<le> of_int r"
        "(1::rat) \<le> of_int r"
        using draw [OF r_def] by (simp_all add: j_def)
      have res: "fst (get_current_recovery_timeout_minutes env self w) = Inr (max 1 (t + of_int j))"
        using timeout_with_jitter [OF assms(1) later p, of env w] by (simp add: r_def j_def)
      have "r \<le> spec_jitter_range t"
        using quotient_le_spec_jitter_range [of n] by (simp add: r_def q n(1))
      then have rs: "(of_int r :: rat) \<le> of_int (spec_jitter_range t)"
        by (simp only: of_int_le_iff)
      have t1: "1 \<le> t" using n(1,2) by simp
      have "max 1 (t - of_int (spec_jitter_range t)) \<le> max 1 (t + of_int j) \<and>
            max 1 (t + of_int j) \<le> t + of_int (spec_jitter_range t)"
        using jitter_bounds_arith [OF t1 d(3) rs d(1,2)] by blast
      then show ?thesis using p q res by blast
    qed
    show ?thesis using later(1) second third by blast
  qed
qed

lemma times_tenth_15: "times_float 15 float_tenth = Inr (3 / 2)"
proof -
  have "py_float (of_int 15) = Inr (of_int 15)" by (rule py_float_of_int) simp_all
  then have f: "py_float 15 = Inr 15" by simp
  have "round_to_double (15 * float_tenth) = 2 powi (- 52) * of_int 6755399441055744"
    unfolding float_tenth_def by (rule round_to_double_eval [where e = 0]) simp_all
  then show ?thesis by (simp add: times_float_def f)
qed

theorem jitter_law_witness:
  "jitter_enabled ((init 5 15 3 5 True)\<lparr>consecutive_circuit_breaks := 1\<rparr>)
   \<and> fst (get_current_recovery_timeout_minutes clock_env
        ((init 5 15 3 5 True)\<lparr>consecutive_circuit_breaks := 1, jitter_enabled := False\<rparr>) 0) = Inr 15
   \<and> consecutive_circuit_breaks ((init 5 15 3 5 True)\<lparr>consecutive_circuit_breaks := 1\<rparr>) \<noteq> 0
   \<and> times_float 15 float_tenth = Inr (3 / 2)
   \<and> (15::rat) = of_int 15 \<and> (1::int) \<le> 15 \<and> (15::int) < 2 ^ 52
   \<and> fst (get_current_recovery_timeout_minutes clock_env
        ((init 5 15 3 5 True)\<lparr>consecutive_circuit_breaks := 1\<rparr>) 0) = Inr 16"
proof -
  let ?b = "(init 5 15 3 5 True)\<lparr>consecutive_circuit_breaks := 1\<rparr>"
  have h1: "jitter_enabled ?b" by (simp add: init_def)
  have h3: "fst (get_current_recovery_timeout_minutes clock_env (?b\<lparr>jitter_enabled := False\<rparr>) 0)
              = Inr 15"
    by (simp add: init_def get_current_recovery_timeout_minutes_def phase_timeout_minutes_def)
  have k: "consecutive_circuit_breaks ?b \<noteq> 0" by (simp add: init_def)
  have r: "max 1 (py_int (3 / 2)) = 1" by (simp add: py_int_def floor_eq_iff)
  have d: "fst (random_randint clock_env (- 1) 1 0) = 1" by (simp add: clock_env_def)
  have "fst (get_current_recovery_timeout_minutes clock_env ?b 0) = Inr 16"
    using jitter_law [OF h1 clock_env_in_range h3] k
    by (simp add: times_tenth_15 r d Let_def)
  then show ?thesis
    using h1 h3 times_tenth_15 by (simp add: init_def)
qed

text \<open>
  C5 as the specification states it fails. At the timeout \<open>t = 15\<close> the specification's range
  is \<open>ceil 1.5 = 2\<close>, so a generator that returns the largest value allowed would give
  \<open>15 + 2 = 17\<close>; the method asks the generator for a value in \<open>[-1, 1]\<close> and returns 16.
\<close>

theorem jitter_law_counterexample:
  "fst (get_current_recovery_timeout_minutes clock_env
        ((init 5 15 3 5 True)\<lparr>consecutive_circuit_breaks := 1\<rparr>) 0) = Inr 16
   \<and> max 1 (15 + of_int (fst (random_randint clock_env
                (- spec_jitter_range 15) (spec_jitter_range 15) 0))) = (17::rat)
   \<and> fst (get_current_recovery_timeout_minutes clock_env
        ((init 5 15 3 5 True)\<lparr>consecutive_circuit_breaks := 1\<rparr>) 0)
       \<noteq> Inr (max 1 (15 + of_int (fst (random_randint clock_env
                (- spec_jitter_range 15) (spec_jitter_range 15) 0))))"
  by (simp add: init_def get_current_recovery_timeout_minutes_def phase_timeout_minutes_def
        times_tenth_15 py_int_def clock_env_def spec_jitter_range_def floor_eq_iff ceiling_eq_iff)

text \<open>
  Beyond \<open>2 ^ 52\<close> the two intervals part. At the timeout 558545864083284007 (base 7, raised
  to the power 21) the product in binary64 truncates to 55854586408328408, above
  \<open>ceil (0.1 t) = 55854586408328401\<close>, and the method can return \<open>t\<close> plus that. At the
  timeout \<open>2 ^ 1024\<close> the conversion to \<^verbatim>\<open>float\<close> raises.
\<close>

lemma jitter_range_at_large_timeout:
  "fst (get_current_recovery_timeout_minutes clock_env
        ((init 5 558545864083284007 3 5 True)\<lparr>consecutive_circuit_breaks := 1\<rparr>) 0)
     = Inr (558545864083284007 + 55854586408328408)
   \<and> spec_jitter_range 558545864083284007 = 55854586408328401"
  by (simp add: init_def get_current_recovery_timeout_minutes_def phase_timeout_minutes_def
        times_tenth_large py_int_def clock_env_def spec_jitter_range_def floor_eq_iff
        ceiling_eq_iff)

lemma jitter_overflow_at_huge_timeout:
  "get_current_recovery_timeout_minutes clock_env
     ((init 5 (2 ^ 1024) 3 5 True)\<lparr>consecutive_circuit_breaks := 1\<rparr>) 0 = (Inl OverflowError, 0)"
proof -
  have "times_float (of_int (2 ^ 1024)) float_tenth = Inl OverflowError"
    using float_overflow by (simp add: times_float_def)
  then show ?thesis
    by (simp add: init_def get_current_recovery_timeout_minutes_def phase_timeout_minutes_def)
qed

section \<open>The handlers and the guarded call\<close>

lemma call_not_open:
  "state self \<noteq> OPEN \<Longrightarrow> call env func self w = call_try env func self w"
  by (simp add: call_def call_gate_def)

lemma call_gate_passes:
  assumes "call_gate env self w = (Inr u, self1, w1)"
  shows "self1 = self \<or> self1 = self\<lparr>state := HALF_OPEN\<rparr>"
  using assms
  by (auto simp: call_gate_def split: if_splits prod.splits sum.splits bool.splits)

lemma call_gate_raises:
  assumes "call_gate env self w = (Inl x, self1, w1)"
  shows "self1 = self"
  using assms
  by (auto simp: call_gate_def split: if_splits prod.splits sum.splits bool.splits)

lemma on_success_half_open: "on_success (self\<lparr>state := HALF_OPEN\<rparr>) = on_success self"
  by (simp add: on_success_def)

lemma call_try_returns:
  assumes "fst (call_try env func self w) = Inr a"
  shows "\<exists>w1. func w = (Return a, w1) \<and> call_try env func self w = (Inr a, on_success self, w1)"
  using assms
  by (auto simp: call_try_def split: prod.splits outcome.splits)

lemma call_returns:
  assumes "fst (call env func self w) = Inr a"
  shows "\<exists>u self1 w1 w2. call_gate env self w = (Inr u, self1, w1) \<and> func w1 = (Return a, w2)
           \<and> call env func self w = (Inr a, on_success self, w2)"
proof -
  obtain r self1 w1 where g: "call_gate env self w = (r, self1, w1)"
    by (metis prod_cases3)
  show ?thesis
  proof (cases r)
    case (Inl x)
    then show ?thesis using assms g by (simp add: call_def)
  next
    case (Inr u)
    then have c: "call env func self w = call_try env func self1 w1"
      using g by (simp add: call_def)
    then obtain w2 where f: "func w1 = (Return a, w2)"
      and t: "call_try env func self1 w1 = (Inr a, on_success self1, w2)"
      using call_try_returns [of env func self1 w1 a] assms by auto
    have "on_success self1 = on_success self"
      using call_gate_passes g Inr on_success_half_open by metis
    then show ?thesis using g Inr c f t by simp
  qed
qed

text \<open>
  C6. The success handler sets \<open>failureCount = 0\<close>, \<open>consecutiveCircuitBreaks = 0\<close> and
  \<open>state = Closed\<close>, and applying it twice is applying it once. Every call that returns a
  value (from \<open>Closed\<close>, from \<open>HalfOpen\<close>, or from \<open>Open\<close> through the trial) leaves the
  breaker in exactly that state.
\<close>

theorem success_full_recovery:
  "failure_count (on_success self) = 0
   \<and> consecutive_circuit_breaks (on_success self) = 0
   \<and> state (on_success self) = CLOSED
   \<and> on_success (on_success self) = on_success self
   \<and> (fst (call env func self w) = Inr a \<longrightarrow> fst (snd (call env func self w)) = on_success self)"
proof -
  have "fst (call env func self w) = Inr a \<Longrightarrow> fst (snd (call env func self w)) = on_success self"
    using call_returns [of env func self w a] by auto
  then show ?thesis by (auto simp: on_success_def)
qed

theorem success_full_recovery_witness:
  "fst (call clock_env success_func ((init 3 5 3 5 False)\<lparr>failure_count := 2\<rparr>) 0) = Inr ''success''
   \<and> fst (snd (call clock_env success_func ((init 3 5 3 5 False)\<lparr>failure_count := 2\<rparr>) 0))
       = init 3 5 3 5 False"
proof -
  have r: "fst (call clock_env success_func ((init 3 5 3 5 False)\<lparr>failure_count := 2\<rparr>) 0)
             = Inr ''success''"
    by (simp add: call_def call_gate_def call_try_def success_func_def init_def)
  show ?thesis
    using success_full_recovery
            [of "(init 3 5 3 5 False)\<lparr>failure_count := 2\<rparr>" clock_env success_func 0 "''success''"] r
    by (simp add: on_success_def init_def)
qed

subsection \<open>The reset check at the boundary\<close>

lemma should_attempt_reset_timed:
  assumes "last_failure_time self = Some lft"
    and "get_current_recovery_timeout_minutes env self w = (Inr timeout, w1)"
    and "time_time env w1 = (now, w2)"
  shows "should_attempt_reset env self w = (Inr (timeout * 60 \<le> now - lft), w2)"
  using assms by (simp add: should_attempt_reset_def)

text \<open>
  C7. For a breaker with a recorded \<open>lastFailureTime\<close>, when the time elapsed since then
  is exactly the recovery timeout the check has just computed (in seconds), the reset check
  answers yes; an \<open>Open\<close> breaker then moves to \<open>HalfOpen\<close> and the operation is invoked.
\<close>

theorem reset_at_exact_timeout:
  assumes "last_failure_time self = Some lft"
    and "get_current_recovery_timeout_minutes env self w = (Inr timeout, w1)"
    and "time_time env w1 = (now, w2)"
    and "now - lft = timeout * 60"
  shows "should_attempt_reset env self w = (Inr True, w2)
       \<and> (state self = OPEN \<longrightarrow>
            call_gate env self w = (Inr (), self\<lparr>state := HALF_OPEN\<rparr>, w2)
            \<and> call env func self w = call_try env func (self\<lparr>state := HALF_OPEN\<rparr>) w2)"
proof -
  have s: "should_attempt_reset env self w = (Inr True, w2)"
    using should_attempt_reset_timed [OF assms(1-3)] assms(4) by simp
  then show ?thesis by (simp add: call_def call_gate_def)
qed

theorem reset_at_exact_timeout_witness:
  "last_failure_time
     ((init 1 5 3 5 False)\<lparr>failure_count := 1, consecutive_circuit_breaks := 1,
        last_failure_time := Some 100, state := OPEN\<rparr>) = Some 100
   \<and> get_current_recovery_timeout_minutes clock_env
       ((init 1 5 3 5 False)\<lparr>failure_count := 1, consecutive_circuit_breaks := 1,
          last_failure_time := Some 100, state := OPEN\<rparr>) 400 = (Inr 5, 400)
   \<and> time_time clock_env 400 = (400, 400)
   \<and> (400::rat) - 100 = 5 * 60
   \<and> should_attempt_reset clock_env
       ((init 1 5 3 5 False)\<lparr>failure_count := 1, consecutive_circuit_breaks := 1,
          last_failure_time := Some 100, state := OPEN\<rparr>) 400 = (Inr True, 400)
   \<and> fst (call clock_env success_func
       ((init 1 5 3 5 False)\<lparr>failure_count := 1, consecutive_circuit_breaks := 1,
          last_failure_time := Some 100, state := OPEN\<rparr>) 400) = Inr ''success''"
proof -
  let ?b = "(init 1 5 3 5 False)\<lparr>failure_count := 1, consecutive_circuit_breaks := 1,
              last_failure_time := Some 100, state := OPEN\<rparr>"
  have h1: "last_failure_time ?b = Some 100" by (simp add: init_def)
  have h2: "get_current_recovery_timeout_minutes clock_env ?b 400 = (Inr 5, 400)"
    by (simp add: init_def get_current_recovery_timeout_minutes_def phase_timeout_minutes_def)
  have h3: "time_time clock_env 400 = (400, 400)" by (simp add: clock_env_def)
  have h4: "(400::rat) - 100 = 5 * 60" by simp
  have st: "state ?b = OPEN" by (simp add: init_def)
  show ?thesis
    using reset_at_exact_timeout [OF h1 h2 h3 h4, of success_func] h1 h2 h3 st
    by (simp add: call_try_def success_func_def)
qed

subsection \<open>Failures\<close>

lemma on_failure_count:
  "failure_count (fst (on_failure env self w)) = failure_count self + 1"
  by (simp add: on_failure_def Let_def split_beta)

lemma on_failure_time:
  "last_failure_time (fst (on_failure env self w)) = Some (fst (time_time env w))"
  by (simp add: on_failure_def Let_def split_beta)

lemma on_failure_threshold:
  "failure_threshold (fst (on_failure env self w)) = failure_threshold self"
  by (simp add: on_failure_def Let_def split_beta)

lemma on_failure_state:
  "state (fst (on_failure env self w)) =
     (if failure_threshold self \<le> failure_count self + 1 then OPEN else state self)"
  by (simp add: on_failure_def Let_def split_beta)

lemma on_failure_world: "snd (on_failure env self w) = snd (time_time env w)"
  by (simp add: on_failure_def Let_def split_beta)

lemma call_try_raises:
  "func w = (Raise_Exception e, w1) \<Longrightarrow>
   call_try env func self w = (Inl (Func_Exception e), on_failure env self w1)"
  by (simp add: call_try_def split_beta)

lemma call_try_raises_base:
  "func w = (Raise_BaseException e, w1) \<Longrightarrow>
   call_try env func self w = (Inl (Func_BaseException e), self, w1)"
  by (simp add: call_try_def)

lemma call_after_gate:
  "call_gate env self w = (Inr u, self1, w1) \<Longrightarrow>
   call env func self w = call_try env func self1 w1"
  by (simp add: call_def)

text \<open>
  C8. When the gate lets the call through, so that the operation is invoked (in the world
  \<open>w1\<close> the gate leaves), and the operation raises an \<^verbatim>\<open>Exception\<close> \<open>e\<close>, then \<open>call\<close>
  raises that same \<open>e\<close>, after the failure handler has run: the failure is counted and its
  time recorded. Another \<^verbatim>\<open>BaseException\<close> goes through unchanged as well, and \<open>call\<close>
  returns a value only if the operation returned it: no failure is swallowed.
\<close>

theorem underlying_failure_propagates:
  assumes "call_gate env self w = (Inr u, self1, w1)"
  shows "(func w1 = (Raise_Exception e, w2) \<longrightarrow>
            call env func self w = (Inl (Func_Exception e), on_failure env self1 w2)
            \<and> failure_count (fst (snd (call env func self w))) = failure_count self + 1
            \<and> last_failure_time (fst (snd (call env func self w))) = Some (fst (time_time env w2)))
       \<and> (func w1 = (Raise_BaseException e, w2) \<longrightarrow>
            call env func self w = (Inl (Func_BaseException e), self1, w2))
       \<and> (fst (call env func self w) = Inr a \<longrightarrow> (\<exists>w3. func w1 = (Return a, w3)))"
proof (intro conjI impI)
  assume f: "func w1 = (Raise_Exception e, w2)"
  show c: "call env func self w = (Inl (Func_Exception e), on_failure env self1 w2)"
    using f by (simp add: call_after_gate [OF assms] call_try_raises)
  have "failure_count self1 = failure_count self"
    using call_gate_passes [OF assms] by auto
  then show "failure_count (fst (snd (call env func self w))) = failure_count self + 1"
    using c by (simp add: on_failure_count)
  show "last_failure_time (fst (snd (call env func self w))) = Some (fst (time_time env w2))"
    using c by (simp add: on_failure_time)
next
  assume "func w1 = (Raise_BaseException e, w2)"
  then show "call env func self w = (Inl (Func_BaseException e), self1, w2)"
    by (simp add: call_after_gate [OF assms] call_try_raises_base)
next
  assume "fst (call env func self w) = Inr a"
  then show "\<exists>w3. func w1 = (Return a, w3)"
    using call_returns [of env func self w a] assms by auto
qed

theorem underlying_failure_propagates_witness:
  "call_gate clock_env (init 5 5 3 5 True) 0 = (Inr (), init 5 5 3 5 True, 0)
   \<and> failing_func 0 = (Raise_Exception ''Test failure'', 1)
   \<and> fst (call clock_env failing_func (init 5 5 3 5 True) 0) = Inl (Func_Exception ''Test failure'')
   \<and> failure_count (fst (snd (call clock_env failing_func (init 5 5 3 5 True) 0))) = 1
   \<and> last_failure_time (fst (snd (call clock_env failing_func (init 5 5 3 5 True) 0))) = Some 1"
proof -
  have g: "call_gate clock_env (init 5 5 3 5 True) 0 = (Inr (), init 5 5 3 5 True, 0)"
    by (simp add: call_gate_def init_def)
  have f: "failing_func 0 = (Raise_Exception ''Test failure'', 1)"
    by (simp add: failing_func_def)
  have c: "failure_count (init 5 5 3 5 True) = 0" by (simp add: init_def)
  have t: "fst (time_time clock_env 1) = 1" by (simp add: clock_env_def)
  show ?thesis
    using underlying_failure_propagates [OF g, of failing_func "''Test failure''" 1 "''none''"]
      g f c t
    by (simp add: on_failure_count on_failure_time)
qed

subsection \<open>The status snapshot\<close>

text \<open>
  C9. The status snapshot leaves the breaker as it found it, every field of it (state,
  counters, last failure time, configuration), also when the calculator raises.
\<close>

theorem status_is_read_only: "fst (snd (get_status_info env self w)) = self"
proof -
  obtain r w1 where t: "get_current_recovery_timeout_minutes env self w = (r, w1)"
    by (cases "get_current_recovery_timeout_minutes env self w")
  show ?thesis
  proof (cases r)
    case (Inl x)
    then show ?thesis using t by (simp add: get_status_info_def)
  next
    case (Inr current_timeout_minutes)
    then show ?thesis using t
      by (simp add: get_status_info_def Let_def split: prod.splits sum.splits)
  qed
qed

section \<open>Sequences of calls\<close>

subsection \<open>An open circuit has a last failure time\<close>

lemma call_try_open_has_time:
  assumes "state self \<noteq> OPEN \<or> last_failure_time self \<noteq> None"
    and "state (fst (snd (call_try env func self w))) = OPEN"
  shows "last_failure_time (fst (snd (call_try env func self w))) \<noteq> None"
proof -
  obtain r w1 where f: "func w = (r, w1)" by (cases "func w")
  show ?thesis
  proof (cases r)
    case (Return a)
    then show ?thesis using f assms(2) by (simp add: call_try_def on_success_def)
  next
    case (Raise_Exception e)
    then show ?thesis using f by (simp add: call_try_raises on_failure_time)
  next
    case (Raise_BaseException e)
    then show ?thesis using f assms by (auto simp: call_try_raises_base)
  qed
qed

lemma call_open_has_time:
  assumes "state self = OPEN \<longrightarrow> last_failure_time self \<noteq> None"
    and "state (fst (snd (call env func self w))) = OPEN"
  shows "last_failure_time (fst (snd (call env func self w))) \<noteq> None"
proof -
  obtain r self1 w1 where g: "call_gate env self w = (r, self1, w1)"
    by (metis prod_cases3)
  show ?thesis
  proof (cases r)
    case (Inl x)
    then have "fst (snd (call env func self w)) = self"
      using g call_gate_raises [of env self w x self1 w1] by (simp add: call_def)
    then show ?thesis using assms by simp
  next
    case (Inr u)
    then have c: "call env func self w = call_try env func self1 w1"
      using g by (simp add: call_after_gate)
    have "state self1 \<noteq> OPEN \<or> last_failure_time self1 \<noteq> None"
      using call_gate_passes [of env self w u self1 w1] g Inr assms(1) by auto
    then show ?thesis
      using call_try_open_has_time [of self1 env func w1] assms(2) c by simp
  qed
qed

lemma run_calls_open_has_time:
  assumes "state self = OPEN \<longrightarrow> last_failure_time self \<noteq> None"
    and "state (fst (run_calls env funcs self w)) = OPEN"
  shows "last_failure_time (fst (run_calls env funcs self w)) \<noteq> None"
  using assms
proof (induction funcs arbitrary: self w)
  case Nil
  then show ?case by simp
next
  case (Cons func funcs)
  obtain r self1 w1 where c: "call env func self w = (r, self1, w1)"
    by (metis prod_cases3)
  have inv: "state self1 = OPEN \<longrightarrow> last_failure_time self1 \<noteq> None"
    using call_open_has_time [of self env func w] Cons.prems(1) c by simp
  have "run_calls env (func # funcs) self w = run_calls env funcs self1 w1"
    using c by simp
  then show ?case using Cons.IH [OF inv] Cons.prems(2) by simp
qed

text \<open>
  C10. A breaker constructed fresh and evolved by any sequence of calls, whatever the
  operations do, has a last failure time whenever its state is \<open>Open\<close>; the failure
  handler, the only place that sets the state to \<open>Open\<close>, always leaves a last failure time.
  So an \<open>Open\<close> breaker never takes the first branch of the reset check.
\<close>

theorem open_implies_last_failure_time:
  "(state (fst (run_calls env funcs
        (init threshold base_interval fixed_retries exponential_retries jitter) w)) = OPEN \<longrightarrow>
      last_failure_time (fst (run_calls env funcs
        (init threshold base_interval fixed_retries exponential_retries jitter) w)) \<noteq> None)
   \<and> last_failure_time (fst (on_failure env self w)) \<noteq> None"
proof -
  let ?fresh = "init threshold base_interval fixed_retries exponential_retries jitter"
  have fresh: "state ?fresh = OPEN \<longrightarrow> last_failure_time ?fresh \<noteq> None"
    by (simp add: init_def)
  have "state (fst (run_calls env funcs ?fresh w)) = OPEN \<Longrightarrow>
        last_failure_time (fst (run_calls env funcs ?fresh w)) \<noteq> None"
    by (rule run_calls_open_has_time [OF fresh])
  moreover have "last_failure_time (fst (on_failure env self w)) \<noteq> None"
    by (simp add: on_failure_time)
  ultimately show ?thesis by blast
qed

theorem open_implies_last_failure_time_witness:
  "state (fst (run_calls clock_env [failing_func, success_func, failing_func, failing_func]
        (init 2 5 3 5 True) 0)) = OPEN
   \<and> last_failure_time (fst (run_calls clock_env
        [failing_func, success_func, failing_func, failing_func] (init 2 5 3 5 True) 0)) \<noteq> None"
proof -
  have "state (fst (run_calls clock_env [failing_func, success_func, failing_func, failing_func]
          (init 2 5 3 5 True) 0)) = OPEN"
    by (simp add: call_def call_gate_def call_try_def on_failure_def on_success_def
          failing_func_def success_func_def init_def clock_env_def)
  then show ?thesis
    using open_implies_last_failure_time
            [of clock_env "[failing_func, success_func, failing_func, failing_func]" 2 5 3 5 True 0]
    by blast
qed

subsection \<open>Reaching the threshold\<close>

lemma timeout_returns_again:
  assumes "get_current_recovery_timeout_minutes env self w = (Inr t, w1)"
  shows "\<exists>r w3. get_current_recovery_timeout_minutes env self w2 = (Inr r, w3)"
  using assms
  by (auto simp: get_current_recovery_timeout_minutes_def Let_def split_beta
           split: if_splits sum.splits)

lemma call_rejects:
  assumes "state self = OPEN" and "last_failure_time self = Some lft"
    and "get_current_recovery_timeout_minutes env self w = (Inr timeout, w1)"
    and "time_time env w1 = (now, w2)"
    and "now - lft < timeout * 60"
    and "get_current_recovery_timeout_minutes env self w2 = (Inr reported, w3)"
  shows "call env func self w = (Inl (Breaker_error (Circuit_open reported)), self, w3)"
proof -
  have "should_attempt_reset env self w = (Inr False, w2)"
    using should_attempt_reset_timed [OF assms(2-4)] assms(5) by simp
  then have "call_gate env self w = (Inl (Circuit_open reported), self, w3)"
    using assms(1,6) by (simp add: call_gate_def)
  then show ?thesis by (simp add: call_def)
qed

lemma call_effect:
  assumes "call env func self w = (r, self', w')"
  shows "(\<exists>x. r = Inl (Breaker_error x) \<and> self' = self)
       \<or> (\<exists>a. r = Inr a \<and> self' = on_success self)
       \<or> (\<exists>e self1 w1. r = Inl (Func_Exception e)
             \<and> (self1 = self \<or> self1 = self\<lparr>state := HALF_OPEN\<rparr>)
             \<and> self' = fst (on_failure env self1 w1))
       \<or> (\<exists>e. r = Inl (Func_BaseException e)
             \<and> (self' = self \<or> self' = self\<lparr>state := HALF_OPEN\<rparr>))"
proof -
  obtain g self1 w1 where gate: "call_gate env self w = (g, self1, w1)"
    by (metis prod_cases3)
  show ?thesis
  proof (cases g)
    case (Inl x)
    then show ?thesis
      using gate assms call_gate_raises [of env self w x self1 w1] by (auto simp: call_def)
  next
    case (Inr u)
    then have c: "call env func self w = call_try env func self1 w1"
      using gate by (simp add: call_after_gate)
    have s1: "self1 = self \<or> self1 = self\<lparr>state := HALF_OPEN\<rparr>"
      using call_gate_passes [of env self w u self1 w1] gate Inr by simp
    obtain out w2 where f: "func w1 = (out, w2)" by (cases "func w1")
    show ?thesis
    proof (cases out)
      case (Return a)
      then have "call env func self w = (Inr a, on_success self1, w2)"
        using c f by (simp add: call_try_def)
      then show ?thesis using assms s1 on_success_half_open by auto
    next
      case (Raise_Exception e)
      then have "call env func self w = (Inl (Func_Exception e), on_failure env self1 w2)"
        using c f by (simp add: call_try_raises)
      then have "r = Inl (Func_Exception e)" and "self' = fst (on_failure env self1 w2)"
        using assms by (simp_all add: prod_eq_iff)
      then show ?thesis using s1 by blast
    next
      case (Raise_BaseException e)
      then have "call env func self w = (Inl (Func_BaseException e), self1, w2)"
        using c f by (simp add: call_try_raises_base)
      then show ?thesis using assms s1 by auto
    qed
  qed
qed

lemma call_without_success:
  assumes "call env func self w = (r, self', w')" and "\<not> is_success r"
  shows "failure_threshold self' = failure_threshold self"
    and "failure_count self' = failure_count self + (if is_failure r then 1 else 0)"
    and "is_failure r \<Longrightarrow> failure_threshold self \<le> failure_count self' \<Longrightarrow> state self' = OPEN"
    and "is_failure r \<Longrightarrow> last_failure_time self' \<noteq> None"
proof -
  consider (breaker) x where "r = Inl (Breaker_error x)" "self' = self"
    | (failure) e self1 w1 where "r = Inl (Func_Exception e)"
        "self1 = self \<or> self1 = self\<lparr>state := HALF_OPEN\<rparr>" "self' = fst (on_failure env self1 w1)"
    | (base) e where "r = Inl (Func_BaseException e)"
        "self' = self \<or> self' = self\<lparr>state := HALF_OPEN\<rparr>"
    using call_effect [OF assms(1)] assms(2) by auto
  then have "failure_threshold self' = failure_threshold self
      \<and> failure_count self' = failure_count self + (if is_failure r then 1 else 0)
      \<and> (is_failure r \<longrightarrow> failure_threshold self \<le> failure_count self' \<longrightarrow> state self' = OPEN)
      \<and> (is_failure r \<longrightarrow> last_failure_time self' \<noteq> None)"
  proof cases
    case breaker
    then show ?thesis by simp
  next
    case failure
    have "failure_threshold self1 = failure_threshold self"
      and "failure_count self1 = failure_count self"
      using failure(2) by auto
    then show ?thesis
      using failure(1,3)
      by (simp add: on_failure_threshold on_failure_count on_failure_state on_failure_time)
  next
    case base
    then show ?thesis by auto
  qed
  then show "failure_threshold self' = failure_threshold self"
    and "failure_count self' = failure_count self + (if is_failure r then 1 else 0)"
    and "is_failure r \<Longrightarrow> failure_threshold self \<le> failure_count self' \<Longrightarrow> state self' = OPEN"
    and "is_failure r \<Longrightarrow> last_failure_time self' \<noteq> None"
    by simp_all
qed

lemma run_without_success:
  assumes "\<forall>r\<in>set (call_results env funcs self w). \<not> is_success r"
  shows "failure_threshold (fst (run_calls env funcs self w)) = failure_threshold self
       \<and> failure_count (fst (run_calls env funcs self w))
           = failure_count self + int (length (filter is_failure (call_results env funcs self w)))
       \<and> (funcs \<noteq> [] \<and> is_failure (last (call_results env funcs self w))
            \<and> failure_threshold self \<le> failure_count (fst (run_calls env funcs self w))
          \<longrightarrow> state (fst (run_calls env funcs self w)) = OPEN
              \<and> last_failure_time (fst (run_calls env funcs self w)) \<noteq> None)"
  using assms
proof (induction funcs arbitrary: self w)
  case Nil
  then show ?case by simp
next
  case (Cons func funcs)
  obtain r self1 w1 where c: "call env func self w = (r, self1, w1)"
    by (metis prod_cases3)
  have res: "call_results env (func # funcs) self w = r # call_results env funcs self1 w1"
    using c by simp
  have run: "run_calls env (func # funcs) self w = run_calls env funcs self1 w1"
    using c by simp
  have nr: "\<not> is_success r"
    and rest: "\<forall>r\<in>set (call_results env funcs self1 w1). \<not> is_success r"
    using Cons.prems unfolding res by simp_all
  note step = call_without_success [OF c nr]
  note ih = Cons.IH [OF rest]
  show ?case
  proof (cases "funcs = []")
    case True
    then show ?thesis using step res run by simp
  next
    case False
    then have "call_results env funcs self1 w1 \<noteq> []"
      by (cases funcs) (auto split: prod.splits)
    then have "last (call_results env (func # funcs) self w)
                 = last (call_results env funcs self1 w1)"
      using res by simp
    then show ?thesis using ih step(1,2) res run False by simp
  qed
qed

text \<open>
  C2. Take any breaker with a non-negative failure count and any run of calls from it in
  which no call succeeds, at least \<open>failureThreshold\<close> calls are failures of the operation
  (the operation was invoked and raised an \<^verbatim>\<open>Exception\<close> at that call), and the last call is
  one of them. After that last failure the state is \<open>Open\<close> and there is a last failure time
  \<open>lft\<close>: this covers the first opening of a fresh breaker and every reopening by a failed
  trial. From then on, any call whose reset check reads a time \<open>now\<close> with \<open>now - lft\<close> below
  the recovery timeout it has just computed raises the circuit-open error and leaves the
  breaker as it is, so the same holds for the call after it; the result is the same for
  every operation passed in, which is therefore not invoked.
\<close>

theorem threshold_failures_open_circuit:
  assumes "0 \<le> failure_count self"
    and "\<forall>r\<in>set (call_results env funcs self w). \<not> is_success r"
    and "failure_threshold self \<le> int (length (filter is_failure (call_results env funcs self w)))"
    and "funcs \<noteq> []"
    and "is_failure (last (call_results env funcs self w))"
  shows "state (fst (run_calls env funcs self w)) = OPEN
       \<and> (\<exists>lft. last_failure_time (fst (run_calls env funcs self w)) = Some lft
            \<and> (\<forall>wa timeout wb now wc.
                  get_current_recovery_timeout_minutes env (fst (run_calls env funcs self w)) wa
                    = (Inr timeout, wb)
                  \<and> time_time env wb = (now, wc)
                  \<and> now - lft < timeout * 60
                  \<longrightarrow> (\<exists>reported wd. \<forall>func :: 'w \<Rightarrow> ('a, 'e) outcome \<times> 'w.
                         call env func (fst (run_calls env funcs self w)) wa
                           = (Inl (Breaker_error (Circuit_open reported)),
                              fst (run_calls env funcs self w), wd))))"
proof -
  define opened where "opened = fst (run_calls env funcs self w)"
  note run = run_without_success [OF assms(2)]
  have "failure_threshold self \<le> failure_count opened"
    using run assms(1,3) by (simp add: opened_def)
  then have streak: "state opened = OPEN" "last_failure_time opened \<noteq> None"
    using run assms(4,5) by (simp_all add: opened_def)
  then obtain lft where lft: "last_failure_time opened = Some lft" by auto
  have "\<exists>reported wd. \<forall>func :: 'w \<Rightarrow> ('a, 'e) outcome \<times> 'w.
          call env func opened wa = (Inl (Breaker_error (Circuit_open reported)), opened, wd)"
    if t: "get_current_recovery_timeout_minutes env opened wa = (Inr timeout, wb)"
      and n: "time_time env wb = (now, wc)" and early: "now - lft < timeout * 60"
    for wa timeout wb now wc
  proof -
    obtain reported wd
      where again: "get_current_recovery_timeout_minutes env opened wc = (Inr reported, wd)"
      using timeout_returns_again [OF t] by blast
    have "call env func opened wa = (Inl (Breaker_error (Circuit_open reported)), opened, wd)"
      for func :: "'w \<Rightarrow> ('a, 'e) outcome \<times> 'w"
      by (rule call_rejects [OF streak(1) lft t n early again])
    then show ?thesis by blast
  qed
  then show ?thesis using streak(1) lft unfolding opened_def by blast
qed

text \<open>
  Two runs: a fresh breaker with threshold 2 and two failing calls, and a breaker with
  threshold 1 that is already \<open>Open\<close>, called again when its five minutes are over: the
  trial fails and the circuit is \<open>Open\<close> again, and a call 99 seconds later is rejected.
\<close>

theorem threshold_failures_open_circuit_witness:
  "0 \<le> failure_count (init 2 5 3 5 False)
   \<and> call_results clock_env [failing_func, failing_func] (init 2 5 3 5 False) 0
       = [Inl (Func_Exception ''Test failure''), Inl (Func_Exception ''Test failure'')]
   \<and> state (fst (run_calls clock_env [failing_func, failing_func] (init 2 5 3 5 False) 0)) = OPEN
   \<and> call_results clock_env [failing_func]
        ((init 1 5 3 5 False)\<lparr>failure_count := 1, consecutive_circuit_breaks := 1,
           last_failure_time := Some 100, state := OPEN\<rparr>) 400
       = [Inl (Func_Exception ''Test failure'')]
   \<and> state (fst (run_calls clock_env [failing_func]
        ((init 1 5 3 5 False)\<lparr>failure_count := 1, consecutive_circuit_breaks := 1,
           last_failure_time := Some 100, state := OPEN\<rparr>) 400)) = OPEN
   \<and> fst (call clock_env success_func
        (fst (run_calls clock_env [failing_func]
           ((init 1 5 3 5 False)\<lparr>failure_count := 1, consecutive_circuit_breaks := 1,
              last_failure_time := Some 100, state := OPEN\<rparr>) 400)) 500)
       = Inl (Breaker_error (Circuit_open 5))"
proof -
  let ?fresh = "init 2 5 3 5 False"
  let ?fs = "[failing_func, failing_func]"
  let ?open = "(init 1 5 3 5 False)\<lparr>failure_count := 1, consecutive_circuit_breaks := 1,
                 last_failure_time := Some 100, state := OPEN\<rparr>"
  note defs = call_def call_gate_def call_try_def should_attempt_reset_def
    get_current_recovery_timeout_minutes_def phase_timeout_minutes_def
    on_failure_def failing_func_def init_def clock_env_def
  have r1: "call_results clock_env ?fs ?fresh 0
              = [Inl (Func_Exception ''Test failure''), Inl (Func_Exception ''Test failure'')]"
    by (simp add: defs)
  have r2: "call_results clock_env [failing_func] ?open 400 = [Inl (Func_Exception ''Test failure'')]"
    by (simp add: defs)
  have f1: "0 \<le> failure_count ?fresh" and t1: "failure_threshold ?fresh = 2"
    and f2: "0 \<le> failure_count ?open" and t2: "failure_threshold ?open = 1"
    by (simp_all add: init_def)
  have n1: "\<forall>r\<in>set (call_results clock_env ?fs ?fresh 0). \<not> is_success r"
    and c1: "failure_threshold ?fresh
               \<le> int (length (filter is_failure (call_results clock_env ?fs ?fresh 0)))"
    and l1: "is_failure (last (call_results clock_env ?fs ?fresh 0))"
    unfolding r1 t1 by simp_all
  have n2: "\<forall>r\<in>set (call_results clock_env [failing_func] ?open 400). \<not> is_success r"
    and c2: "failure_threshold ?open
               \<le> int (length (filter is_failure (call_results clock_env [failing_func] ?open 400)))"
    and l2: "is_failure (last (call_results clock_env [failing_func] ?open 400))"
    unfolding r2 t2 by simp_all
  have o1: "state (fst (run_calls clock_env ?fs ?fresh 0)) = OPEN"
    using threshold_failures_open_circuit [OF f1 n1 c1 _ l1] by blast
  have o2: "state (fst (run_calls clock_env [failing_func] ?open 400)) = OPEN"
    using threshold_failures_open_circuit [OF f2 n2 c2 _ l2] by blast
  have rej: "fst (call clock_env success_func
               (fst (run_calls clock_env [failing_func] ?open 400)) 500)
             = Inl (Breaker_error (Circuit_open 5))"
    by (simp add: defs)
  show ?thesis using f1 r1 o1 r2 o2 rej by blast
qed

subsection \<open>What the circuit-open error reports\<close>

text \<open>
  C3, evaluated. A breaker opened at time 100 with a timeout of 5 minutes is called at time
  220, two minutes later: the call is rejected and the error reports 5, the whole timeout,
  where three minutes remain.
\<close>

theorem circuit_open_error_reports_whole_timeout:
  "call clock_env success_func
     ((init 1 5 3 5 False)\<lparr>failure_count := 1, consecutive_circuit_breaks := 1,
        last_failure_time := Some 100, state := OPEN\<rparr>) 220
     = (Inl (Breaker_error (Circuit_open 5)),
        (init 1 5 3 5 False)\<lparr>failure_count := 1, consecutive_circuit_breaks := 1,
          last_failure_time := Some 100, state := OPEN\<rparr>, 220)
   \<and> 5 - (220 - 100) / 60 = (3::rat)"
  by (simp add: call_def call_gate_def should_attempt_reset_def
        get_current_recovery_timeout_minutes_def phase_timeout_minutes_def init_def clock_env_def)

end
